theory Spec2Isabelle
  imports Main "HOL-Library.Word"
begin

section \<open>The order projection (mongo\_order\_projection.go)\<close>

subsection \<open>Values\<close>

text \<open>A UUID is sixteen bytes. Timestamps are kept as an integer instant.\<close>

type_synonym uuid = "128 word"
type_synonym time = int

text \<open>
  Go errors. \<open>errors.WrapIf\<close> (emperror) returns nil on a nil error and
  otherwise an error that carries the cause and the message.
\<close>

datatype error = Err string | Wrapped error string

definition WrapIf :: "error option \<Rightarrow> string \<Rightarrow> error option" where
  "WrapIf err message = (case err of None \<Rightarrow> None | Some e \<Rightarrow> Some (Wrapped e message))"

text \<open>
  The event \<open>OrderCreatedEventV1\<close>, with the fields \<open>onOrderCreated\<close> reads.
  The element type of \<open>ShopItems\<close> is declared outside the files at hand and
  stays a type parameter.
\<close>

record 'i OrderCreatedEventV1 =
  OrderId :: uuid
  ShopItems :: "'i list"
  AccountEmail :: string
  DeliveryAddress :: string
  DeliveredTime :: time

text \<open>
  Modelled from the spec: the declaration of \<open>read_models.OrderReadModel\<close> and its
  constructor \<open>NewOrderReadModel\<close> are missing from the sources. The read model is
  the document that holds the six arguments of the constructor call in
  \<open>onOrderCreated\<close>, in the order of that call: document id, order id, items,
  account email, delivery address, delivered time.
\<close>

record 'r OrderReadModel =
  rm_Id :: uuid
  rm_OrderId :: uuid
  rm_ShopItems :: "'r list"
  rm_AccountEmail :: string
  rm_DeliveryAddress :: string
  rm_DeliveredTime :: time

definition NewOrderReadModel ::
  "uuid \<Rightarrow> uuid \<Rightarrow> 'r list \<Rightarrow> string \<Rightarrow> string \<Rightarrow> time \<Rightarrow> 'r OrderReadModel" where
  "NewOrderReadModel docId orderId items accountEmail deliveryAddress deliveredTime =
     \<lparr>rm_Id = docId, rm_OrderId = orderId, rm_ShopItems = items,
      rm_AccountEmail = accountEmail, rm_DeliveryAddress = deliveryAddress,
      rm_DeliveredTime = deliveredTime\<rparr>"

text \<open>
  The dynamic value of the interface field \<open>streamEvent.Event\<close>: the nil interface,
  a pointer to an \<open>OrderCreatedEventV1\<close> (which may itself be a nil pointer), or
  a value of any other dynamic type, named by its type tag.
\<close>

datatype 'i Event =
    NilEvent
  | OrderCreatedEventV1_ptr "'i OrderCreatedEventV1 option"
  | OtherEvent string

fun is_OrderCreatedEventV1 :: "'i Event \<Rightarrow> bool" where
  "is_OrderCreatedEventV1 (OrderCreatedEventV1_ptr p) = True"
| "is_OrderCreatedEventV1 NilEvent = False"
| "is_OrderCreatedEventV1 (OtherEvent tag) = False"

text \<open>
  Modelled from the spec: \<open>models.StreamEvent\<close> is declared outside the sources.
  Of its fields the projection reads \<open>Event\<close> only; message id and stream
  position are the envelope attributes the specification names.
\<close>

record 'i StreamEvent =
  EventID :: uuid
  Position :: int
  Event :: "'i Event"

subsection \<open>Collaborators\<close>

text \<open>
  The read store is the collection of read-model documents. The interface
  \<open>repositories.OrderReadRepository\<close> is a field of the projection; of its
  methods the projection calls \<open>CreateOrder\<close>, which returns a document pointer
  and an error and may change the store.
\<close>

type_synonym 'r read_store = "'r OrderReadModel list"

record ('c, 'r) OrderReadRepository =
  CreateOrder :: "'c \<Rightarrow> 'r read_store \<Rightarrow> 'r OrderReadModel
                   \<Rightarrow> ('r OrderReadModel option \<times> error option) \<times> 'r read_store"

record ('c, 'r, 'k) mongoOrderProjection =
  mongoOrderRepository :: "('c, 'r) OrderReadRepository"
  kafkaProducer :: 'k

text \<open>
  The two package-level functions \<open>onOrderCreated\<close> calls: \<open>mapper.Map\<close>, which
  may fail, and \<open>uuid.NewV4\<close>, which draws from a generator state.
\<close>

record ('i, 'r, 'g) runtime =
  mapper_Map :: "'i list \<Rightarrow> error + 'r list"
  uuid_NewV4 :: "'g \<Rightarrow> uuid \<times> 'g"

text \<open>
  The state the projection runs in: the read store, the generator state, and the
  trace of documents handed to \<open>CreateOrder\<close> so far (a ghost field that records
  every access to the repository).
\<close>

record ('r, 'g) world =
  store :: "'r read_store"
  uuid_gen :: 'g
  repo_calls :: "'r OrderReadModel list"

text \<open>A call either panics (nil pointer dereference) or returns an error value, nil or not.\<close>

datatype go_result = Panicked | Returned "error option"

subsection \<open>The two methods\<close>

definition onOrderCreated ::
  "('c, 'r, 'k) mongoOrderProjection \<Rightarrow> ('i, 'r, 'g) runtime \<Rightarrow> 'c
     \<Rightarrow> 'i OrderCreatedEventV1 option \<Rightarrow> ('r, 'g) world \<Rightarrow> go_result \<times> ('r, 'g) world" where
  "onOrderCreated m rt ctx evt w =
     (case evt of
        None \<Rightarrow> (Panicked, w)
      | Some e \<Rightarrow>
          (case mapper_Map rt (ShopItems e) of
             Inl err \<Rightarrow>
               (Returned (WrapIf (Some err)
                  ''[mongoOrderProjection_onOrderCreated.Map] error in mapping shopItems''), w)
           | Inr items \<Rightarrow>
               (let (u, g') = uuid_NewV4 rt (uuid_gen w);
                    orderRead = NewOrderReadModel u (OrderId e) items (AccountEmail e)
                                  (DeliveryAddress e) (DeliveredTime e);
                    ((created, err), store') =
                       CreateOrder (mongoOrderRepository m) ctx (store w) orderRead;
                    w' = w\<lparr>store := store', uuid_gen := g',
                           repo_calls := repo_calls w @ [orderRead]\<rparr>
                in if err \<noteq> None
                   then (Returned (WrapIf err
                     ''[mongoOrderProjection_onOrderCreated.CreateOrder] error in creating order with mongoOrderRepository''), w')
                   else (Returned None, w'))))"

definition ProcessEvent ::
  "('c, 'r, 'k) mongoOrderProjection \<Rightarrow> ('i, 'r, 'g) runtime \<Rightarrow> 'c
     \<Rightarrow> 'i StreamEvent option \<Rightarrow> ('r, 'g) world \<Rightarrow> go_result \<times> ('r, 'g) world" where
  "ProcessEvent m rt ctx streamEvent w =
     (case streamEvent of
        None \<Rightarrow> (Panicked, w)
      | Some se \<Rightarrow>
          (case Event se of
             OrderCreatedEventV1_ptr evt \<Rightarrow> onOrderCreated m rt ctx evt w
           | NilEvent \<Rightarrow> (Returned None, w)
           | OtherEvent tag \<Rightarrow> (Returned None, w)))"

subsection \<open>Concrete collaborators\<close>

text \<open>
  Modelled from the spec: the implementation of \<open>OrderReadRepository\<close> is missing
  from the sources. This one is a collection that inserts: a document whose id is
  already present is refused with a duplicate-key error, any other document is
  appended and returned.
\<close>

definition insert_CreateOrder ::
  "'c \<Rightarrow> 'r read_store \<Rightarrow> 'r OrderReadModel
     \<Rightarrow> ('r OrderReadModel option \<times> error option) \<times> 'r read_store" where
  "insert_CreateOrder ctx docs doc =
     (if rm_Id doc \<in> set (map rm_Id docs)
      then ((None, Some (Err ''duplicate key'')), docs)
      else ((Some doc, None), docs @ [doc]))"

definition insert_repository :: "('c, 'r) OrderReadRepository" where
  "insert_repository = \<lparr>CreateOrder = insert_CreateOrder\<rparr>"

definition insert_projection :: "('c, 'r, unit) mongoOrderProjection" where
  "insert_projection = \<lparr>mongoOrderRepository = insert_repository, kafkaProducer = ()\<rparr>"

text \<open>A generator that hands out consecutive ids, and the two mappers used in examples.\<close>

definition counter_NewV4 :: "uuid \<Rightarrow> uuid \<times> uuid" where
  "counter_NewV4 g = (g, g + 1)"

definition same_items_runtime :: "('i, 'i, uuid) runtime" where
  "same_items_runtime = \<lparr>mapper_Map = Inr, uuid_NewV4 = counter_NewV4\<rparr>"

definition no_mapping_runtime :: "('i, 'i, uuid) runtime" where
  "no_mapping_runtime =
     \<lparr>mapper_Map = (\<lambda>xs. Inl (Err ''no mapping registered'')), uuid_NewV4 = counter_NewV4\<rparr>"

definition empty_world :: "('r, uuid) world" where
  "empty_world = \<lparr>store = [], uuid_gen = 0, repo_calls = []\<rparr>"

text \<open>The order of the scenario: order id 7 with the items A and B.\<close>

definition order7 :: "string OrderCreatedEventV1" where
  "order7 = \<lparr>OrderId = 7, ShopItems = [''A'', ''B''], AccountEmail = ''a@b.c'',
             DeliveryAddress = ''street 1'', DeliveredTime = 1000\<rparr>"

definition order7_envelope :: "string StreamEvent" where
  "order7_envelope = \<lparr>EventID = 99, Position = 1, Event = OrderCreatedEventV1_ptr (Some order7)\<rparr>"

definition other_envelope :: "string StreamEvent" where
  "other_envelope = \<lparr>EventID = 100, Position = 2, Event = OtherEvent ''OrderShippedEventV1''\<rparr>"

text \<open>
  The contract a repository is expected to meet for a created document to be found:
  when \<open>CreateOrder\<close> reports no error, the document is in the store afterwards.
\<close>

definition stores_on_success :: "('c, 'r) OrderReadRepository \<Rightarrow> bool" where
  "stores_on_success repo \<longleftrightarrow>
     (\<forall>ctx docs doc created docs'.
        CreateOrder repo ctx docs doc = ((created, None), docs') \<longrightarrow> doc \<in> set docs')"

section \<open>The write side and the delivery pipeline\<close>

text \<open>
  The unit of work, the mediator, the event publisher and the bus worker are used by
  the sources (the fixtures create the unit of work, register the mediator handlers,
  start the bus worker and mock \<open>Do\<close> and \<open>PublishMessage\<close>), but their own code is
  not among them. Each is modelled from its section of the specification.
\<close>

subsection \<open>Domain events and envelopes\<close>

text \<open>
  Modelled from the spec: the DomainEvent and EventEnvelope declarations are missing.
  Section 3 gives a domain event its type identifier, aggregate id, stream position,
  payload and timestamp; the envelope adds the message id, the type tag and the
  stream position.
\<close>

record 'p DomainEvent =
  event_type :: string
  aggregate_id :: nat
  stream_position :: nat
  payload :: 'p
  occurred_at :: time

record 'p EventEnvelope =
  message_id :: nat
  type_tag :: string
  envelope_position :: nat
  domain_event :: "'p DomainEvent"

definition wrap :: "nat \<Rightarrow> 'p DomainEvent \<Rightarrow> 'p EventEnvelope" where
  "wrap mid e = \<lparr>message_id = mid, type_tag = event_type e,
                 envelope_position = stream_position e, domain_event = e\<rparr>"

subsection \<open>Event publisher and bus\<close>

text \<open>
  Modelled from the spec: the bus is an external collaborator with
  \<open>Publish(envelope) error\<close>. It keeps the envelopes it accepted, in the order of
  acceptance. Transient errors are scripted by \<open>faults\<close>: each entry belongs to
  one coming attempt and says how many envelopes that attempt gets through before
  the bus fails; with no entry left the bus is healthy. \<open>attempts\<close> records the
  batch of every attempt as it was handed over.
\<close>

record 'p bus =
  accepted :: "'p EventEnvelope list"
  faults :: "nat list"
  attempts :: "'p EventEnvelope list list"

definition send_batch :: "'p bus \<Rightarrow> 'p EventEnvelope list \<Rightarrow> error option \<times> 'p bus" where
  "send_batch b envs =
     (case faults b of
        [] \<Rightarrow> (None, b\<lparr>accepted := accepted b @ envs, attempts := attempts b @ [envs]\<rparr>)
      | k # ks \<Rightarrow>
          if length envs \<le> k
          then (None, b\<lparr>accepted := accepted b @ envs, faults := ks,
                         attempts := attempts b @ [envs]\<rparr>)
          else (Some (Err ''transient bus error''),
                b\<lparr>accepted := accepted b @ take k envs, faults := ks,
                  attempts := attempts b @ [envs]\<rparr>))"

text \<open>
  Modelled from the spec: the Event Publisher, \<open>Publish(ctx, events) \<rightarrow> error\<close>
  (section 4.3). A call wraps each event in an envelope with a new message id, in the
  order raised, and sends the batch; on a transient error the whole batch is sent
  again, with the envelopes built at the start of the call, while retries remain.
  Message ids come from the publisher's counter, advanced once per call.
\<close>

fun wrap_all :: "nat \<Rightarrow> 'p DomainEvent list \<Rightarrow> 'p EventEnvelope list" where
  "wrap_all g [] = []"
| "wrap_all g (e # es) = wrap g e # wrap_all (Suc g) es"

fun attempt :: "nat \<Rightarrow> 'p EventEnvelope list \<Rightarrow> 'p bus \<Rightarrow> error option \<times> 'p bus" where
  "attempt 0 envs b = send_batch b envs"
| "attempt (Suc n) envs b =
     (case send_batch b envs of
        (None, b') \<Rightarrow> (None, b')
      | (Some err, b') \<Rightarrow> attempt n envs b')"

record 'p publisher =
  next_id :: nat
  the_bus :: "'p bus"

definition Publish ::
  "nat \<Rightarrow> 'p DomainEvent list \<Rightarrow> 'p publisher \<Rightarrow> error option \<times> 'p publisher" where
  "Publish retries events ps =
     (let envs = wrap_all (next_id ps) events;
          (err, b') = attempt retries envs (the_bus ps)
      in (err, \<lparr>next_id = next_id ps + length events, the_bus = b'\<rparr>))"

text \<open>What one call added to the bus: its attempts, and the envelopes accepted from them.\<close>

definition new_attempts :: "'p publisher \<Rightarrow> 'p publisher \<Rightarrow> 'p EventEnvelope list list" where
  "new_attempts ps ps' = drop (length (attempts (the_bus ps))) (attempts (the_bus ps'))"

definition new_accepted :: "'p publisher \<Rightarrow> 'p publisher \<Rightarrow> 'p EventEnvelope list" where
  "new_accepted ps ps' = drop (length (accepted (the_bus ps))) (accepted (the_bus ps'))"

text \<open>
  \<open>occurs_before a b xs\<close>: both occur in \<open>xs\<close>, and the first \<open>a\<close> comes before
  the first \<open>b\<close>.
\<close>

fun occurs_before :: "'a \<Rightarrow> 'a \<Rightarrow> 'a list \<Rightarrow> bool" where
  "occurs_before a b [] = False"
| "occurs_before a b (x # xs) =
     (if x = b then False else if x = a then b \<in> set xs else occurs_before a b xs)"

subsection \<open>Bus worker\<close>

text \<open>
  Modelled from the spec: the worker of section 4.4, with one queue per aggregate
  stream (section 5). The queue of an aggregate holds the accepted envelopes of that
  aggregate in the order of acceptance. The worker pulls one envelope at a time; which
  queue it pulls from next is the bus's choice, given by a schedule of aggregate ids.
  A pulled envelope is delivered to the projection, and delivered again after each
  failure up to the retry bound, before the worker moves on (acknowledged or
  dead-lettered); \<open>failures\<close> scripts how often the projection fails on an envelope.
\<close>

definition queue_of :: "nat \<Rightarrow> 'p EventEnvelope list \<Rightarrow> 'p EventEnvelope list" where
  "queue_of a envs = filter (\<lambda>env. aggregate_id (domain_event env) = a) envs"

definition deliveries :: "nat \<Rightarrow> ('p EventEnvelope \<Rightarrow> nat) \<Rightarrow> 'p EventEnvelope \<Rightarrow> 'p EventEnvelope list" where
  "deliveries bound failures env = replicate (Suc (min bound (failures env))) env"

fun deliver ::
  "nat \<Rightarrow> ('p EventEnvelope \<Rightarrow> nat) \<Rightarrow> nat list \<Rightarrow> (nat \<Rightarrow> 'p EventEnvelope list)
     \<Rightarrow> 'p EventEnvelope list" where
  "deliver bound failures [] queues = []"
| "deliver bound failures (a # schedule) queues =
     (case queues a of
        [] \<Rightarrow> deliver bound failures schedule queues
      | env # rest \<Rightarrow>
          deliveries bound failures env @ deliver bound failures schedule (queues(a := rest)))"

definition worker_log ::
  "nat \<Rightarrow> ('p EventEnvelope \<Rightarrow> nat) \<Rightarrow> nat list \<Rightarrow> 'p EventEnvelope list \<Rightarrow> 'p DomainEvent list" where
  "worker_log bound failures schedule envs =
     map domain_event (deliver bound failures schedule (\<lambda>a. queue_of a envs))"

subsection \<open>Unit of work\<close>

text \<open>
  Modelled from the spec: \<open>Do(ctx, action)\<close> of section 4.1. The action works on a
  transaction-scoped context, the working copy of the aggregate state and the buffer
  of raised events, and returns a result or an error. \<open>Do\<close> refuses a re-entrant
  call, begins the transaction, runs the action, rolls back on an error, and otherwise
  commits and then hands the buffered batch to the publisher; a failure of the
  publisher after the commit is reported and the commit stays. \<open>trace\<close> records the
  steps in the order taken.
\<close>

datatype 'e uow_step = TxBegin | ActionRun | TxCommit | TxRollback | Handed "'e list"

datatype uow_error = ActionFailed error | PublishAfterCommitError error | NestedTransaction

record ('s, 'e) tx_context =
  working :: 's
  raised :: "'e list"

record ('s, 'e, 'b) uow =
  committed :: 's
  publisher_state :: 'b
  in_tx :: bool
  trace :: "'e uow_step list"

definition Do ::
  "('e list \<Rightarrow> 'b \<Rightarrow> error option \<times> 'b)
     \<Rightarrow> (('s, 'e) tx_context \<Rightarrow> (error + 'r) \<times> ('s, 'e) tx_context)
     \<Rightarrow> ('s, 'e, 'b) uow \<Rightarrow> (uow_error + 'r) \<times> ('s, 'e, 'b) uow" where
  "Do publish action u =
     (if in_tx u then (Inl NestedTransaction, u)
      else
        (let u1 = u\<lparr>in_tx := True, trace := trace u @ [TxBegin]\<rparr>;
             (res, tx) = action \<lparr>working = committed u, raised = []\<rparr>;
             u2 = u1\<lparr>trace := trace u1 @ [ActionRun]\<rparr>
         in case res of
              Inl err \<Rightarrow>
                (Inl (ActionFailed err),
                 u2\<lparr>in_tx := False, trace := trace u2 @ [TxRollback]\<rparr>)
            | Inr v \<Rightarrow>
                (let u3 = u2\<lparr>committed := working tx, in_tx := False,
                              trace := trace u2 @ [TxCommit]\<rparr>;
                     (perr, b') = publish (raised tx) (publisher_state u3);
                     u4 = u3\<lparr>publisher_state := b', trace := trace u3 @ [Handed (raised tx)]\<rparr>
                 in case perr of
                      None \<Rightarrow> (Inr v, u4)
                    | Some e \<Rightarrow> (Inl (PublishAfterCommitError e), u4))))"

text \<open>The steps one call of \<open>Do\<close> added to the trace.\<close>

definition steps_of :: "('s, 'e, 'b) uow \<Rightarrow> ('s, 'e, 'b) uow \<Rightarrow> 'e uow_step list" where
  "steps_of u u' = drop (length (trace u)) (trace u')"

text \<open>
  A trace hands a batch to the publisher only after a commit: scanning the steps,
  the flag says whether the transaction begun last has committed.
\<close>

fun handed_after_commit :: "bool \<Rightarrow> 'e uow_step list \<Rightarrow> bool" where
  "handed_after_commit c [] = True"
| "handed_after_commit c (TxBegin # t) = handed_after_commit False t"
| "handed_after_commit c (TxCommit # t) = handed_after_commit True t"
| "handed_after_commit c (Handed batch # t) = (c \<and> handed_after_commit c t)"
| "handed_after_commit c (ActionRun # t) = handed_after_commit c t"
| "handed_after_commit c (TxRollback # t) = handed_after_commit c t"

subsection \<open>Mediator\<close>

text \<open>
  Modelled from the spec: the handler registry of sections 4.2 and 6. Registrations
  are kept in the order made. \<open>RegisterHandler\<close> refuses a type that has a handler;
  startup registers a list of handlers and stops at the first refusal. \<open>Send\<close>
  resolves the handlers of the request's type and runs the behaviors in order, each of
  which may end the call with an error, before the handler.
\<close>

datatype mediator_error = HandlerAlreadyRegistered string | HandlerNotFound string
  | RejectedByBehavior error | HandlerFailed error

type_synonym ('q, 'a) handler = "'q \<Rightarrow> error + 'a"
type_synonym ('q, 'a) registry = "(string \<times> ('q, 'a) handler) list"

definition RegisterHandler ::
  "string \<Rightarrow> ('q, 'a) handler \<Rightarrow> ('q, 'a) registry \<Rightarrow> mediator_error + ('q, 'a) registry" where
  "RegisterHandler t h reg =
     (if t \<in> set (map fst reg) then Inl (HandlerAlreadyRegistered t) else Inr (reg @ [(t, h)]))"

fun register_all ::
  "(string \<times> ('q, 'a) handler) list \<Rightarrow> ('q, 'a) registry \<Rightarrow> mediator_error + ('q, 'a) registry" where
  "register_all [] reg = Inr reg"
| "register_all ((t, h) # rest) reg =
     (case RegisterHandler t h reg of
        Inl e \<Rightarrow> Inl e
      | Inr reg' \<Rightarrow> register_all rest reg')"

definition resolve :: "('q, 'a) registry \<Rightarrow> string \<Rightarrow> ('q, 'a) handler list" where
  "resolve reg t = map snd (filter (\<lambda>entry. fst entry = t) reg)"

fun run_behaviors :: "('q \<Rightarrow> error option) list \<Rightarrow> 'q \<Rightarrow> error option" where
  "run_behaviors [] q = None"
| "run_behaviors (b # bs) q = (case b q of Some e \<Rightarrow> Some e | None \<Rightarrow> run_behaviors bs q)"

definition Send ::
  "('q, 'a) registry \<Rightarrow> ('q \<Rightarrow> error option) list \<Rightarrow> string \<Rightarrow> 'q \<Rightarrow> mediator_error + 'a" where
  "Send reg behaviors t q =
     (case resolve reg t of
        [] \<Rightarrow> Inl (HandlerNotFound t)
      | h # others \<Rightarrow>
          (case run_behaviors behaviors q of
             Some e \<Rightarrow> Inl (RejectedByBehavior e)
           | None \<Rightarrow> (case h q of Inl e \<Rightarrow> Inl (HandlerFailed e) | Inr a \<Rightarrow> Inr a)))"

subsection \<open>Invariant and examples\<close>

text \<open>Every message id handed to the bus so far is below the publisher's counter.\<close>

definition ids_below :: "'p publisher \<Rightarrow> bool" where
  "ids_below ps \<longleftrightarrow>
     (\<forall>a \<in> set (attempts (the_bus ps)). \<forall>env \<in> set a. message_id env < next_id ps)"

text \<open>
  Three events of two aggregates, an action that raises them and one that fails after
  it has worked on its copy, a bus that fails the first attempt after one envelope,
  and two handlers.
\<close>

definition created7 :: "string DomainEvent" where
  "created7 = \<lparr>event_type = ''OrderCreatedEventV1'', aggregate_id = 7, stream_position = 1,
               payload = ''A,B'', occurred_at = 1000\<rparr>"

definition paid7 :: "string DomainEvent" where
  "paid7 = \<lparr>event_type = ''OrderPaidEventV1'', aggregate_id = 7, stream_position = 2,
            payload = ''paid'', occurred_at = 1001\<rparr>"

definition created8 :: "string DomainEvent" where
  "created8 = \<lparr>event_type = ''OrderCreatedEventV1'', aggregate_id = 8, stream_position = 1,
               payload = ''C'', occurred_at = 1002\<rparr>"

definition create_orders ::
  "(nat list, string DomainEvent) tx_context
     \<Rightarrow> (error + nat) \<times> (nat list, string DomainEvent) tx_context" where
  "create_orders tx =
     (Inr 7, tx\<lparr>working := working tx @ [7, 8],
                raised := raised tx @ [created7, created8, paid7]\<rparr>)"

definition rejected_order ::
  "(nat list, string DomainEvent) tx_context
     \<Rightarrow> (error + nat) \<times> (nat list, string DomainEvent) tx_context" where
  "rejected_order tx =
     (Inl (Err ''conflict''), tx\<lparr>working := working tx @ [7], raised := raised tx @ [created7]\<rparr>)"

definition flaky_publisher :: "string publisher" where
  "flaky_publisher = \<lparr>next_id = 0, the_bus = \<lparr>accepted = [], faults = [1], attempts = []\<rparr>\<rparr>"

definition fresh_uow :: "(nat list, string DomainEvent, string publisher) uow" where
  "fresh_uow = \<lparr>committed = [], publisher_state = flaky_publisher, in_tx = False, trace = []\<rparr>"

definition create_order_handler :: "(nat, string) handler" where
  "create_order_handler q = Inr ''created''"

definition get_order_handler :: "(nat, string) handler" where
  "get_order_handler q = (if q = 7 then Inr ''order 7'' else Inl (Err ''not found''))"

section \<open>Properties of the projection\<close>

lemma insert_repository_stores: "stores_on_success insert_repository"
  by (auto simp: stores_on_success_def insert_repository_def insert_CreateOrder_def
           split: if_splits)

lemma onOrderCreated_nil_pointer: "onOrderCreated m rt ctx None w = (Panicked, w)"
  by (simp add: onOrderCreated_def)

lemma onOrderCreated_unmapped:
  "mapper_Map rt (ShopItems e) = Inl err \<Longrightarrow>
   onOrderCreated m rt ctx (Some e) w =
     (Returned (Some (Wrapped err
        ''[mongoOrderProjection_onOrderCreated.Map] error in mapping shopItems'')), w)"
  by (simp add: onOrderCreated_def WrapIf_def)

text \<open>What a nil return of \<open>onOrderCreated\<close> tells about the calls it made.\<close>

lemma onOrderCreated_nil:
  assumes "onOrderCreated m rt ctx (Some e) w = (Returned None, w')"
  shows "\<exists>items u g' created docs'.
           mapper_Map rt (ShopItems e) = Inr items \<and>
           uuid_NewV4 rt (uuid_gen w) = (u, g') \<and>
           CreateOrder (mongoOrderRepository m) ctx (store w)
             (NewOrderReadModel u (OrderId e) items (AccountEmail e)
                (DeliveryAddress e) (DeliveredTime e))
             = ((created, None), docs') \<and>
           store w' = docs'"
  using assms
  by (auto simp: onOrderCreated_def Let_def WrapIf_def
           split: sum.splits prod.splits if_splits option.splits)

text \<open>The trace of repository calls after a call whose items map.\<close>

lemma onOrderCreated_calls:
  assumes "mapper_Map rt (ShopItems e) = Inr items"
    and "uuid_NewV4 rt (uuid_gen w) = (u, g')"
  shows "repo_calls (snd (onOrderCreated m rt ctx (Some e) w)) =
           repo_calls w @ [NewOrderReadModel u (OrderId e) items (AccountEmail e)
                             (DeliveryAddress e) (DeliveredTime e)]
         \<and> uuid_gen (snd (onOrderCreated m rt ctx (Some e) w)) = g'"
  using assms
  by (simp add: onOrderCreated_def Let_def split: prod.splits)

text \<open>The scenario, run on the inserting collection from the empty store.\<close>

lemma order7_once:
  "ProcessEvent insert_projection same_items_runtime () (Some order7_envelope) empty_world =
     (Returned None,
      \<lparr>store = [NewOrderReadModel 0 7 [''A'', ''B''] ''a@b.c'' ''street 1'' 1000],
       uuid_gen = 1,
       repo_calls = [NewOrderReadModel 0 7 [''A'', ''B''] ''a@b.c'' ''street 1'' 1000]\<rparr>)"
  by (simp add: ProcessEvent_def onOrderCreated_def order7_envelope_def order7_def
        insert_projection_def insert_repository_def insert_CreateOrder_def
        same_items_runtime_def counter_NewV4_def empty_world_def NewOrderReadModel_def Let_def)

lemma order7_again:
  "ProcessEvent insert_projection same_items_runtime () (Some order7_envelope)
     \<lparr>store = [NewOrderReadModel 0 7 [''A'', ''B''] ''a@b.c'' ''street 1'' 1000],
      uuid_gen = 1,
      repo_calls = [NewOrderReadModel 0 7 [''A'', ''B''] ''a@b.c'' ''street 1'' 1000]\<rparr> =
     (Returned None,
      \<lparr>store = [NewOrderReadModel 0 7 [''A'', ''B''] ''a@b.c'' ''street 1'' 1000,
                NewOrderReadModel 1 7 [''A'', ''B''] ''a@b.c'' ''street 1'' 1000],
       uuid_gen = 2,
       repo_calls = [NewOrderReadModel 0 7 [''A'', ''B''] ''a@b.c'' ''street 1'' 1000,
                     NewOrderReadModel 1 7 [''A'', ''B''] ''a@b.c'' ''street 1'' 1000]\<rparr>)"
  by (simp add: ProcessEvent_def onOrderCreated_def order7_envelope_def order7_def
        insert_projection_def insert_repository_def insert_CreateOrder_def
        same_items_runtime_def counter_NewV4_def NewOrderReadModel_def Let_def)

text \<open>
  C1, as stated: processing the same envelope twice leaves the read store as one
  processing leaves it. On the inserting collection, starting from the empty store, the
  envelope of order 7 leaves one document when processed once and two when processed
  twice, so the statement fails.
\<close>

theorem ProcessEvent_twice_differs:
  "store (snd (ProcessEvent insert_projection same_items_runtime () (Some order7_envelope)
            (snd (ProcessEvent insert_projection same_items_runtime () (Some order7_envelope)
                    empty_world))))
   \<noteq> store (snd (ProcessEvent insert_projection same_items_runtime () (Some order7_envelope)
                 empty_world))"
  by (simp add: order7_once order7_again)

text \<open>
  C1, amended: processing an envelope twice leaves the read store as one processing
  leaves it (namely untouched) when the event is not an \<open>OrderCreatedEventV1\<close> or
  its items fail to map. For an \<open>OrderCreatedEventV1\<close> whose items map, every
  processing draws a new document id and calls \<open>CreateOrder\<close> once with a read
  model under that id: after two processings of the same envelope the repository has
  received two create calls, for documents that agree on everything but the id drawn.
\<close>

theorem ProcessEvent_twice:
  "((\<forall>e. Event se = OrderCreatedEventV1_ptr (Some e) \<longrightarrow> (\<exists>err. mapper_Map rt (ShopItems e) = Inl err))
      \<longrightarrow> store (snd (ProcessEvent m rt ctx (Some se) (snd (ProcessEvent m rt ctx (Some se) w))))
            = store (snd (ProcessEvent m rt ctx (Some se) w))
        \<and> store (snd (ProcessEvent m rt ctx (Some se) w)) = store w)
   \<and> (\<forall>e items u1 g1 u2 g2.
         Event se = OrderCreatedEventV1_ptr (Some e) \<and> mapper_Map rt (ShopItems e) = Inr items
         \<and> uuid_NewV4 rt (uuid_gen w) = (u1, g1) \<and> uuid_NewV4 rt g1 = (u2, g2)
       \<longrightarrow> repo_calls (snd (ProcessEvent m rt ctx (Some se) (snd (ProcessEvent m rt ctx (Some se) w))))
            = repo_calls w @
                [NewOrderReadModel u1 (OrderId e) items (AccountEmail e) (DeliveryAddress e)
                   (DeliveredTime e),
                 NewOrderReadModel u2 (OrderId e) items (AccountEmail e) (DeliveryAddress e)
                   (DeliveredTime e)])"
proof (intro conjI allI impI)
  assume unmapped:
    "\<forall>e. Event se = OrderCreatedEventV1_ptr (Some e) \<longrightarrow> (\<exists>err. mapper_Map rt (ShopItems e) = Inl err)"
  have same: "snd (ProcessEvent m rt ctx (Some se) w') = w'" for w'
  proof (cases "Event se")
    case NilEvent
    then show ?thesis by (simp add: ProcessEvent_def)
  next
    case (OtherEvent tag)
    then show ?thesis by (simp add: ProcessEvent_def)
  next
    case (OrderCreatedEventV1_ptr p)
    show ?thesis
    proof (cases p)
      case None
      with OrderCreatedEventV1_ptr show ?thesis
        by (simp add: ProcessEvent_def onOrderCreated_nil_pointer)
    next
      case (Some e)
      with OrderCreatedEventV1_ptr unmapped obtain err where "mapper_Map rt (ShopItems e) = Inl err"
        by blast
      with OrderCreatedEventV1_ptr Some show ?thesis
        by (simp add: ProcessEvent_def onOrderCreated_unmapped)
    qed
  qed
  show "store (snd (ProcessEvent m rt ctx (Some se) (snd (ProcessEvent m rt ctx (Some se) w))))
          = store (snd (ProcessEvent m rt ctx (Some se) w))"
    by (simp add: same)
  show "store (snd (ProcessEvent m rt ctx (Some se) w)) = store w"
    by (simp add: same)
next
  fix e items u1 g1 u2 g2
  assume h: "Event se = OrderCreatedEventV1_ptr (Some e) \<and> mapper_Map rt (ShopItems e) = Inr items
         \<and> uuid_NewV4 rt (uuid_gen w) = (u1, g1) \<and> uuid_NewV4 rt g1 = (u2, g2)"
  then have pe: "ProcessEvent m rt ctx (Some se) w' = onOrderCreated m rt ctx (Some e) w'" for w'
    by (simp add: ProcessEvent_def)
  from h have first: "repo_calls (snd (onOrderCreated m rt ctx (Some e) w)) =
           repo_calls w @ [NewOrderReadModel u1 (OrderId e) items (AccountEmail e)
                             (DeliveryAddress e) (DeliveredTime e)]
         \<and> uuid_gen (snd (onOrderCreated m rt ctx (Some e) w)) = g1"
    by (intro onOrderCreated_calls) simp_all
  with h have second:
    "repo_calls (snd (onOrderCreated m rt ctx (Some e) (snd (onOrderCreated m rt ctx (Some e) w)))) =
           repo_calls (snd (onOrderCreated m rt ctx (Some e) w))
             @ [NewOrderReadModel u2 (OrderId e) items (AccountEmail e)
                             (DeliveryAddress e) (DeliveredTime e)]
         \<and> uuid_gen (snd (onOrderCreated m rt ctx (Some e) (snd (onOrderCreated m rt ctx (Some e) w)))) = g2"
    by (intro onOrderCreated_calls) simp_all
  from first second
  show "repo_calls (snd (ProcessEvent m rt ctx (Some se) (snd (ProcessEvent m rt ctx (Some se) w))))
            = repo_calls w @
                [NewOrderReadModel u1 (OrderId e) items (AccountEmail e) (DeliveryAddress e)
                   (DeliveredTime e),
                 NewOrderReadModel u2 (OrderId e) items (AccountEmail e) (DeliveryAddress e)
                   (DeliveredTime e)]"
    by (simp add: pe)
qed

theorem ProcessEvent_twice_witness:
  "store (snd (ProcessEvent insert_projection same_items_runtime () (Some other_envelope)
            (snd (ProcessEvent insert_projection same_items_runtime () (Some other_envelope)
                    empty_world))))
     = store (snd (ProcessEvent insert_projection same_items_runtime () (Some other_envelope)
                     empty_world))
   \<and> repo_calls (snd (ProcessEvent insert_projection same_items_runtime () (Some order7_envelope)
            (snd (ProcessEvent insert_projection same_items_runtime () (Some order7_envelope)
                    empty_world))))
     = [NewOrderReadModel 0 7 [''A'', ''B''] ''a@b.c'' ''street 1'' 1000,
        NewOrderReadModel 1 7 [''A'', ''B''] ''a@b.c'' ''street 1'' 1000]"
proof -
  have a: "\<forall>e. Event other_envelope = OrderCreatedEventV1_ptr (Some e)
             \<longrightarrow> (\<exists>err. mapper_Map same_items_runtime (ShopItems e) = Inl err)"
    by (simp add: other_envelope_def)
  have b: "Event order7_envelope = OrderCreatedEventV1_ptr (Some order7)
         \<and> mapper_Map same_items_runtime (ShopItems order7) = Inr [''A'', ''B'']
         \<and> uuid_NewV4 same_items_runtime (uuid_gen (empty_world :: (string, uuid) world)) = (0, 1)
         \<and> uuid_NewV4 same_items_runtime 1 = (1, 2)"
    by (simp add: order7_envelope_def order7_def same_items_runtime_def counter_NewV4_def
          empty_world_def)
  from a ProcessEvent_twice [of other_envelope same_items_runtime insert_projection "()" empty_world]
  have "store (snd (ProcessEvent insert_projection same_items_runtime () (Some other_envelope)
            (snd (ProcessEvent insert_projection same_items_runtime () (Some other_envelope)
                    empty_world))))
     = store (snd (ProcessEvent insert_projection same_items_runtime () (Some other_envelope)
                     empty_world))"
    by blast
  moreover
  from b ProcessEvent_twice [of order7_envelope same_items_runtime insert_projection "()" empty_world]
  have "repo_calls (snd (ProcessEvent insert_projection same_items_runtime () (Some order7_envelope)
            (snd (ProcessEvent insert_projection same_items_runtime () (Some order7_envelope)
                    empty_world))))
     = repo_calls (empty_world :: (string, uuid) world) @
        [NewOrderReadModel 0 (OrderId order7) [''A'', ''B''] (AccountEmail order7)
           (DeliveryAddress order7) (DeliveredTime order7),
         NewOrderReadModel 1 (OrderId order7) [''A'', ''B''] (AccountEmail order7)
           (DeliveryAddress order7) (DeliveredTime order7)]"
    by blast
  ultimately show ?thesis
    by (simp add: empty_world_def order7_def)
qed

text \<open>
  C4: for every stream event whose event is not an \<open>OrderCreatedEventV1\<close> (the nil
  interface, or a value of any other type), \<open>ProcessEvent\<close> returns nil, not an error.
\<close>

theorem ProcessEvent_ignores_unrecognized:
  "\<not> is_OrderCreatedEventV1 (Event se) \<Longrightarrow>
   fst (ProcessEvent m rt ctx (Some se) w) = Returned None"
  by (cases "Event se") (simp_all add: ProcessEvent_def)

theorem ProcessEvent_ignores_unrecognized_witness:
  "\<not> is_OrderCreatedEventV1 (Event other_envelope) \<and>
   fst (ProcessEvent insert_projection same_items_runtime () (Some other_envelope) empty_world)
     = Returned None"
  using ProcessEvent_ignores_unrecognized
          [of other_envelope insert_projection same_items_runtime "()" empty_world]
  by (simp add: other_envelope_def)

text \<open>
  C5: when \<open>ProcessEvent\<close> returns nil on an \<open>OrderCreatedEventV1\<close> envelope, and the
  repository keeps what it reports created, the read store holds a read model with the
  order id of the event, the items \<open>mapper.Map\<close> made of the event's items, and the
  account email, delivery address and delivered time of the event.
\<close>

theorem ProcessEvent_creates_read_model:
  assumes repo: "stores_on_success (mongoOrderRepository m)"
    and ev: "Event se = OrderCreatedEventV1_ptr p"
    and ret: "ProcessEvent m rt ctx (Some se) w = (Returned None, w')"
  shows "\<exists>e d. p = Some e \<and> d \<in> set (store w')
           \<and> rm_OrderId d = OrderId e
           \<and> mapper_Map rt (ShopItems e) = Inr (rm_ShopItems d)
           \<and> rm_AccountEmail d = AccountEmail e
           \<and> rm_DeliveryAddress d = DeliveryAddress e
           \<and> rm_DeliveredTime d = DeliveredTime e"
proof -
  from ev ret have run: "onOrderCreated m rt ctx p w = (Returned None, w')"
    by (simp add: ProcessEvent_def)
  then obtain e where p: "p = Some e"
    by (cases p) (simp_all add: onOrderCreated_nil_pointer)
  from onOrderCreated_nil [OF run [unfolded p]] obtain items u created docs' where
    mapped: "mapper_Map rt (ShopItems e) = Inr items"
    and created: "CreateOrder (mongoOrderRepository m) ctx (store w)
             (NewOrderReadModel u (OrderId e) items (AccountEmail e)
                (DeliveryAddress e) (DeliveredTime e))
             = ((created, None), docs')"
    and st: "store w' = docs'"
    by blast
  let ?d = "NewOrderReadModel u (OrderId e) items (AccountEmail e)
              (DeliveryAddress e) (DeliveredTime e)"
  from repo created have "?d \<in> set docs'"
    unfolding stores_on_success_def by blast
  with st have "?d \<in> set (store w')" by simp
  moreover have "rm_OrderId ?d = OrderId e \<and> mapper_Map rt (ShopItems e) = Inr (rm_ShopItems ?d)
     \<and> rm_AccountEmail ?d = AccountEmail e \<and> rm_DeliveryAddress ?d = DeliveryAddress e
     \<and> rm_DeliveredTime ?d = DeliveredTime e"
    using mapped by (simp add: NewOrderReadModel_def)
  ultimately show ?thesis using p by blast
qed

theorem ProcessEvent_creates_read_model_witness:
  "\<exists>d \<in> set (store \<lparr>store = [NewOrderReadModel 0 7 [''A'', ''B''] ''a@b.c'' ''street 1'' 1000],
                     uuid_gen = (1 :: uuid),
                     repo_calls = [NewOrderReadModel 0 7 [''A'', ''B''] ''a@b.c'' ''street 1'' 1000]\<rparr>).
      rm_OrderId d = 7 \<and> rm_ShopItems d = [''A'', ''B''] \<and> rm_AccountEmail d = ''a@b.c''
      \<and> rm_DeliveryAddress d = ''street 1'' \<and> rm_DeliveredTime d = 1000"
proof -
  have repo: "stores_on_success (mongoOrderRepository (insert_projection :: (unit, string, unit) mongoOrderProjection))"
    by (simp add: insert_projection_def insert_repository_stores)
  have ev: "Event order7_envelope = OrderCreatedEventV1_ptr (Some order7)"
    by (simp add: order7_envelope_def)
  from ProcessEvent_creates_read_model [OF repo ev order7_once]
  show ?thesis
    by (simp add: order7_def same_items_runtime_def)
qed

text \<open>
  C9: when the items of an \<open>OrderCreatedEventV1\<close> fail to map, \<open>onOrderCreated\<close>
  returns a non-nil error, calls the repository not at all and leaves the read store
  as it was.
\<close>

theorem onOrderCreated_mapping_error:
  "mapper_Map rt (ShopItems e) = Inl err \<Longrightarrow>
   (\<exists>e'. fst (onOrderCreated m rt ctx (Some e) w) = Returned (Some e'))
   \<and> store (snd (onOrderCreated m rt ctx (Some e) w)) = store w
   \<and> repo_calls (snd (onOrderCreated m rt ctx (Some e) w)) = repo_calls w"
  by (simp add: onOrderCreated_unmapped)

theorem onOrderCreated_mapping_error_witness:
  "mapper_Map no_mapping_runtime (ShopItems order7) = Inl (Err ''no mapping registered'')
   \<and> (\<exists>e'. fst (onOrderCreated insert_projection no_mapping_runtime () (Some order7) empty_world)
              = Returned (Some e'))
   \<and> store (snd (onOrderCreated insert_projection no_mapping_runtime () (Some order7) empty_world))
       = []
   \<and> repo_calls (snd (onOrderCreated insert_projection no_mapping_runtime () (Some order7) empty_world))
       = []"
proof -
  have h: "mapper_Map no_mapping_runtime (ShopItems order7) = Inl (Err ''no mapping registered'')"
    by (simp add: no_mapping_runtime_def)
  from onOrderCreated_mapping_error [OF h, of insert_projection "()" empty_world] h
  show ?thesis
    by (simp add: empty_world_def)
qed

text \<open>
  C10: for every stream event whose event is not an \<open>OrderCreatedEventV1\<close>,
  \<open>ProcessEvent\<close> makes no call to the repository (the outcome is the same whatever
  the repository, and the trace of calls does not grow) and leaves the read store, with
  the rest of the state, unchanged.
\<close>

theorem ProcessEvent_unrecognized_frame:
  "\<not> is_OrderCreatedEventV1 (Event se) \<Longrightarrow>
   repo_calls (snd (ProcessEvent m rt ctx (Some se) w)) = repo_calls w
   \<and> store (snd (ProcessEvent m rt ctx (Some se) w)) = store w
   \<and> snd (ProcessEvent m rt ctx (Some se) w) = w
   \<and> ProcessEvent m rt ctx (Some se) w = ProcessEvent m' rt ctx (Some se) w"
  by (cases "Event se") (simp_all add: ProcessEvent_def)

theorem ProcessEvent_unrecognized_frame_witness:
  "\<not> is_OrderCreatedEventV1 (Event other_envelope)
   \<and> repo_calls (snd (ProcessEvent insert_projection same_items_runtime () (Some other_envelope)
                        empty_world)) = []
   \<and> store (snd (ProcessEvent insert_projection same_items_runtime () (Some other_envelope)
                   empty_world)) = []"
  using ProcessEvent_unrecognized_frame
          [of other_envelope insert_projection same_items_runtime "()" empty_world insert_projection]
  by (simp add: other_envelope_def empty_world_def)

section \<open>Properties of the write side\<close>

subsection \<open>Unit of work\<close>

text \<open>The three ways a call of \<open>Do\<close> can go.\<close>

lemma Do_nested: "in_tx u \<Longrightarrow> Do publish action u = (Inl NestedTransaction, u)"
  by (simp add: Do_def)

lemma Do_rollback:
  assumes "\<not> in_tx u" and "action \<lparr>working = committed u, raised = []\<rparr> = (Inl err, tx)"
  shows "Do publish action u =
           (Inl (ActionFailed err),
            u\<lparr>in_tx := False, trace := trace u @ [TxBegin, ActionRun, TxRollback]\<rparr>)"
  using assms by (simp add: Do_def)

lemma Do_commit:
  assumes "\<not> in_tx u" and "action \<lparr>working = committed u, raised = []\<rparr> = (Inr v, tx)"
    and "publish (raised tx) (publisher_state u) = (perr, b')"
  shows "Do publish action u =
           ((case perr of None \<Rightarrow> Inr v | Some e \<Rightarrow> Inl (PublishAfterCommitError e)),
            u\<lparr>committed := working tx, publisher_state := b', in_tx := False,
              trace := trace u @ [TxBegin, ActionRun, TxCommit, Handed (raised tx)]\<rparr>)"
  using assms by (simp add: Do_def split: option.splits)

lemma Do_steps_cases:
  "in_tx u \<and> steps_of u (snd (Do publish action u)) = [] \<and> snd (Do publish action u) = u
   \<or> (\<exists>err tx. \<not> in_tx u \<and> action \<lparr>working = committed u, raised = []\<rparr> = (Inl err, tx)
         \<and> steps_of u (snd (Do publish action u)) = [TxBegin, ActionRun, TxRollback]
         \<and> committed (snd (Do publish action u)) = committed u
         \<and> publisher_state (snd (Do publish action u)) = publisher_state u)
   \<or> (\<exists>v tx. \<not> in_tx u \<and> action \<lparr>working = committed u, raised = []\<rparr> = (Inr v, tx)
         \<and> steps_of u (snd (Do publish action u)) = [TxBegin, ActionRun, TxCommit, Handed (raised tx)])"
proof (cases "in_tx u")
  case True
  then show ?thesis by (simp add: Do_nested steps_of_def)
next
  case False
  obtain res tx where a: "action \<lparr>working = committed u, raised = []\<rparr> = (res, tx)"
    by (cases "action \<lparr>working = committed u, raised = []\<rparr>")
  show ?thesis
  proof (cases res)
    case (Inl err)
    with False a show ?thesis
      by (simp add: Do_rollback [OF False] steps_of_def)
  next
    case (Inr v)
    obtain perr b' where p: "publish (raised tx) (publisher_state u) = (perr, b')"
      by (cases "publish (raised tx) (publisher_state u)")
    from False a Inr have "Do publish action u =
           ((case perr of None \<Rightarrow> Inr v | Some e \<Rightarrow> Inl (PublishAfterCommitError e)),
            u\<lparr>committed := working tx, publisher_state := b', in_tx := False,
              trace := trace u @ [TxBegin, ActionRun, TxCommit, Handed (raised tx)]\<rparr>)"
      using p by (intro Do_commit) simp_all
    with False a Inr show ?thesis
      by (simp add: steps_of_def)
  qed
qed

text \<open>
  C2: in every execution of \<open>Do\<close> the batch is handed to the publisher only after
  the commit step, and the publisher is not reached at all without a commit; when the
  action succeeds and the publisher then fails, the caller gets
  \<open>PublishAfterCommitError\<close> and the committed state is the one the action left.
\<close>

theorem Do_hands_batch_after_commit:
  "handed_after_commit False (steps_of u (snd (Do publish action u)))
   \<and> (TxCommit \<notin> set (steps_of u (snd (Do publish action u)))
        \<longrightarrow> publisher_state (snd (Do publish action u)) = publisher_state u)
   \<and> (\<forall>v tx e b'. \<not> in_tx u
          \<and> action \<lparr>working = committed u, raised = []\<rparr> = (Inr v, tx)
          \<and> publish (raised tx) (publisher_state u) = (Some e, b')
        \<longrightarrow> fst (Do publish action u) = Inl (PublishAfterCommitError e)
            \<and> committed (snd (Do publish action u)) = working tx
            \<and> steps_of u (snd (Do publish action u))
                = [TxBegin, ActionRun, TxCommit, Handed (raised tx)])"
proof (intro conjI allI impI)
  show "handed_after_commit False (steps_of u (snd (Do publish action u)))"
    using Do_steps_cases [of u publish action] by auto
next
  assume "TxCommit \<notin> set (steps_of u (snd (Do publish action u)))"
  then show "publisher_state (snd (Do publish action u)) = publisher_state u"
    using Do_steps_cases [of u publish action] by auto
next
  fix v tx e b'
  assume h: "\<not> in_tx u
          \<and> action \<lparr>working = committed u, raised = []\<rparr> = (Inr v, tx)
          \<and> publish (raised tx) (publisher_state u) = (Some e, b')"
  then have d: "Do publish action u =
           (Inl (PublishAfterCommitError e),
            u\<lparr>committed := working tx, publisher_state := b', in_tx := False,
              trace := trace u @ [TxBegin, ActionRun, TxCommit, Handed (raised tx)]\<rparr>)"
    using Do_commit [of u action v tx publish "Some e" b'] by simp
  show "fst (Do publish action u) = Inl (PublishAfterCommitError e)" by (simp add: d)
  show "committed (snd (Do publish action u)) = working tx" by (simp add: d)
  show "steps_of u (snd (Do publish action u)) = [TxBegin, ActionRun, TxCommit, Handed (raised tx)]"
    by (simp add: d steps_of_def)
qed

theorem Do_hands_batch_after_commit_witness:
  "handed_after_commit False (steps_of fresh_uow (snd (Do (Publish 0) create_orders fresh_uow)))
   \<and> fst (Do (Publish 0) create_orders fresh_uow)
       = Inl (PublishAfterCommitError (Err ''transient bus error''))
   \<and> committed (snd (Do (Publish 0) create_orders fresh_uow)) = [7, 8]
   \<and> steps_of fresh_uow (snd (Do (Publish 0) create_orders fresh_uow))
       = [TxBegin, ActionRun, TxCommit, Handed [created7, created8, paid7]]
   \<and> publisher_state (snd (Do (Publish 0) rejected_order fresh_uow)) = flaky_publisher"
proof -
  have run: "\<not> in_tx fresh_uow
     \<and> create_orders \<lparr>working = committed fresh_uow, raised = []\<rparr>
         = (Inr 7, \<lparr>working = [7, 8 :: nat], raised = [created7, created8, paid7]\<rparr>)
     \<and> Publish 0 (raised \<lparr>working = [7, 8 :: nat], raised = [created7, created8, paid7]\<rparr>)
          (publisher_state fresh_uow)
         = (Some (Err ''transient bus error''),
            \<lparr>next_id = 3,
             the_bus = \<lparr>accepted = [wrap 0 created7], faults = [],
                        attempts = [[wrap 0 created7, wrap 1 created8, wrap 2 paid7]]\<rparr>\<rparr>)"
    by (simp add: fresh_uow_def create_orders_def flaky_publisher_def Publish_def send_batch_def
          numeral_2_eq_2)
  have no_commit:
    "TxCommit \<notin> set (steps_of fresh_uow (snd (Do (Publish 0) rejected_order fresh_uow)))"
    by (simp add: Do_def rejected_order_def fresh_uow_def steps_of_def)
  note ok = Do_hands_batch_after_commit [of fresh_uow "Publish 0" create_orders]
  note failed = Do_hands_batch_after_commit [of fresh_uow "Publish 0" rejected_order]
  from ok have "handed_after_commit False
                  (steps_of fresh_uow (snd (Do (Publish 0) create_orders fresh_uow)))"
    by blast
  moreover from ok run
  have "fst (Do (Publish 0) create_orders fresh_uow)
          = Inl (PublishAfterCommitError (Err ''transient bus error''))
        \<and> committed (snd (Do (Publish 0) create_orders fresh_uow))
            = working \<lparr>working = [7, 8 :: nat], raised = [created7, created8, paid7]\<rparr>
        \<and> steps_of fresh_uow (snd (Do (Publish 0) create_orders fresh_uow))
            = [TxBegin, ActionRun, TxCommit,
               Handed (raised \<lparr>working = [7, 8 :: nat], raised = [created7, created8, paid7]\<rparr>)]"
    by blast
  moreover from failed no_commit
  have "publisher_state (snd (Do (Publish 0) rejected_order fresh_uow))
          = publisher_state fresh_uow"
    by blast
  ultimately show ?thesis by (simp add: fresh_uow_def)
qed

text \<open>
  C3: in every execution of \<open>Do\<close> the transaction is begun before the action runs;
  a call that is not re-entrant commits exactly when the action returns no error and
  rolls back exactly when it returns one; and when the action returns an error, the
  committed state and the publisher with its bus are as before, no batch is handed
  over, and the caller gets an error.
\<close>

theorem Do_commits_iff_action_succeeds:
  "(ActionRun \<in> set (steps_of u (snd (Do publish action u)))
      \<longrightarrow> occurs_before TxBegin ActionRun (steps_of u (snd (Do publish action u))))
   \<and> (\<not> in_tx u \<longrightarrow>
        (TxCommit \<in> set (steps_of u (snd (Do publish action u)))
           \<longleftrightarrow> (\<exists>v tx. action \<lparr>working = committed u, raised = []\<rparr> = (Inr v, tx)))
      \<and> (TxRollback \<in> set (steps_of u (snd (Do publish action u)))
           \<longleftrightarrow> (\<exists>err tx. action \<lparr>working = committed u, raised = []\<rparr> = (Inl err, tx))))
   \<and> (\<forall>err tx. action \<lparr>working = committed u, raised = []\<rparr> = (Inl err, tx)
        \<longrightarrow> committed (snd (Do publish action u)) = committed u
          \<and> publisher_state (snd (Do publish action u)) = publisher_state u
          \<and> (\<forall>batch. Handed batch \<notin> set (steps_of u (snd (Do publish action u))))
          \<and> (\<exists>e. fst (Do publish action u) = Inl e))"
proof (intro conjI allI impI)
  assume "ActionRun \<in> set (steps_of u (snd (Do publish action u)))"
  then show "occurs_before TxBegin ActionRun (steps_of u (snd (Do publish action u)))"
    using Do_steps_cases [of u publish action] by auto
next
  assume "\<not> in_tx u"
  then show "TxCommit \<in> set (steps_of u (snd (Do publish action u)))
           \<longleftrightarrow> (\<exists>v tx. action \<lparr>working = committed u, raised = []\<rparr> = (Inr v, tx))"
    using Do_steps_cases [of u publish action] by auto
next
  assume "\<not> in_tx u"
  then show "TxRollback \<in> set (steps_of u (snd (Do publish action u)))
           \<longleftrightarrow> (\<exists>err tx. action \<lparr>working = committed u, raised = []\<rparr> = (Inl err, tx))"
    using Do_steps_cases [of u publish action] by auto
next
  fix err tx
  assume a: "action \<lparr>working = committed u, raised = []\<rparr> = (Inl err, tx)"
  show "committed (snd (Do publish action u)) = committed u"
    using a by (cases "in_tx u") (simp_all add: Do_nested Do_rollback)
  show "publisher_state (snd (Do publish action u)) = publisher_state u"
    using a by (cases "in_tx u") (simp_all add: Do_nested Do_rollback)
  show "\<exists>e. fst (Do publish action u) = Inl e"
    using a by (cases "in_tx u") (simp_all add: Do_nested Do_rollback)
  fix batch
  show "Handed batch \<notin> set (steps_of u (snd (Do publish action u)))"
    using a by (cases "in_tx u") (simp_all add: Do_nested Do_rollback steps_of_def)
qed

theorem Do_commits_iff_action_succeeds_witness:
  "occurs_before TxBegin ActionRun
     (steps_of fresh_uow (snd (Do (Publish 0) rejected_order fresh_uow)))
   \<and> TxRollback \<in> set (steps_of fresh_uow (snd (Do (Publish 0) rejected_order fresh_uow)))
   \<and> TxCommit \<in> set (steps_of fresh_uow (snd (Do (Publish 0) create_orders fresh_uow)))
   \<and> committed (snd (Do (Publish 0) rejected_order fresh_uow)) = []
   \<and> publisher_state (snd (Do (Publish 0) rejected_order fresh_uow)) = flaky_publisher"
proof -
  have top: "\<not> in_tx fresh_uow" by (simp add: fresh_uow_def)
  have bad: "rejected_order \<lparr>working = committed fresh_uow, raised = []\<rparr>
               = (Inl (Err ''conflict''), \<lparr>working = [7], raised = [created7]\<rparr>)"
    by (simp add: rejected_order_def fresh_uow_def)
  have good: "create_orders \<lparr>working = committed fresh_uow, raised = []\<rparr>
               = (Inr 7, \<lparr>working = [7, 8 :: nat], raised = [created7, created8, paid7]\<rparr>)"
    by (simp add: create_orders_def fresh_uow_def)
  have ran: "ActionRun \<in> set (steps_of fresh_uow (snd (Do (Publish 0) rejected_order fresh_uow)))"
    by (simp add: Do_def rejected_order_def fresh_uow_def steps_of_def)
  note r = Do_commits_iff_action_succeeds [of fresh_uow "Publish 0" rejected_order]
  note c = Do_commits_iff_action_succeeds [of fresh_uow "Publish 0" create_orders]
  from r ran have "occurs_before TxBegin ActionRun
     (steps_of fresh_uow (snd (Do (Publish 0) rejected_order fresh_uow)))"
    by blast
  moreover from r top bad
  have "TxRollback \<in> set (steps_of fresh_uow (snd (Do (Publish 0) rejected_order fresh_uow)))"
    by blast
  moreover from c top good
  have "TxCommit \<in> set (steps_of fresh_uow (snd (Do (Publish 0) create_orders fresh_uow)))"
    by blast
  moreover from r bad
  have "committed (snd (Do (Publish 0) rejected_order fresh_uow)) = committed fresh_uow
        \<and> publisher_state (snd (Do (Publish 0) rejected_order fresh_uow))
            = publisher_state fresh_uow"
    by blast
  ultimately show ?thesis by (simp add: fresh_uow_def)
qed

subsection \<open>Mediator\<close>

lemma RegisterHandler_keys:
  "RegisterHandler t h reg = Inr reg' \<Longrightarrow>
   t \<notin> set (map fst reg) \<and> map fst reg' = map fst reg @ [t]"
  by (auto simp: RegisterHandler_def split: if_splits)

lemma register_all_keys:
  "register_all regs reg = Inr reg' \<Longrightarrow> distinct (map fst reg) \<Longrightarrow>
   distinct (map fst reg') \<and> map fst reg' = map fst reg @ map fst regs"
proof (induction regs arbitrary: reg)
  case Nil
  then show ?case by simp
next
  case (Cons r regs)
  obtain t h where r: "r = (t, h)" by (cases r)
  from Cons.prems(1) r obtain reg1 where
    one: "RegisterHandler t h reg = Inr reg1" and rest: "register_all regs reg1 = Inr reg'"
    by (auto split: sum.splits)
  from RegisterHandler_keys [OF one] Cons.prems(2)
  have d1: "distinct (map fst reg1)" and k1: "map fst reg1 = map fst reg @ [t]"
    by simp_all
  from Cons.IH [OF rest d1] have d': "distinct (map fst reg')"
    and k': "map fst reg' = map fst reg1 @ map fst regs"
    by blast+
  from k' k1 r have "map fst reg' = map fst reg @ map fst (r # regs)" by simp
  with d' show ?case by blast
qed

lemma register_all_startup:
  assumes "register_all regs [] = Inr reg'"
  shows "distinct (map fst reg')" and "map fst reg' = map fst regs"
  using register_all_keys [OF assms] by auto

lemma register_all_duplicate:
  "\<not> distinct (map fst reg @ map fst regs) \<Longrightarrow> distinct (map fst reg) \<Longrightarrow> \<exists>e. register_all regs reg = Inl e"
proof (rule ccontr)
  assume nd: "\<not> distinct (map fst reg @ map fst regs)" and d: "distinct (map fst reg)"
    and "\<not> (\<exists>e. register_all regs reg = Inl e)"
  then obtain reg' where "register_all regs reg = Inr reg'"
    by (cases "register_all regs reg") auto
  from register_all_keys [OF this d] have "distinct (map fst reg')"
    and "map fst reg' = map fst reg @ map fst regs" by blast+
  then have "distinct (map fst reg @ map fst regs)" by metis
  with nd show False by blast
qed

lemma resolve_count:
  "distinct (map fst reg) \<Longrightarrow>
   length (resolve reg t) = (if t \<in> set (map fst reg) then 1 else 0)"
proof -
  have keys: "length (filter (\<lambda>entry. fst entry = t) r) = length (filter (\<lambda>k. k = t) (map fst r))"
    for r :: "(string \<times> 'h) list"
    by (induction r) simp_all
  have "distinct ks \<Longrightarrow> length (filter (\<lambda>k. k = t) ks) = (if t \<in> set ks then 1 else 0)"
    for ks :: "string list"
    by (induction ks) auto
  from this [of "map fst reg"] keys [of reg] show "distinct (map fst reg) \<Longrightarrow> ?thesis"
    by (simp add: resolve_def)
qed

text \<open>
  C7: registering a handler for a type that has one fails, at the registration; a
  startup that registers two handlers for one type fails; and after a startup that
  succeeded, every request type resolves to at most one handler, and every type
  registered to exactly one.
\<close>

theorem RegisterHandler_unique:
  "(t \<in> set (map fst reg) \<longrightarrow> RegisterHandler t h reg = Inl (HandlerAlreadyRegistered t))
   \<and> (\<not> distinct (map fst regs) \<longrightarrow> (\<exists>e. register_all regs [] = Inl e))
   \<and> (\<forall>reg'. register_all regs [] = Inr reg' \<longrightarrow>
         (\<forall>t'. length (resolve reg' t') \<le> 1)
         \<and> (\<forall>t' \<in> set (map fst regs). length (resolve reg' t') = 1))"
proof (intro conjI allI impI ballI)
  assume "t \<in> set (map fst reg)"
  then show "RegisterHandler t h reg = Inl (HandlerAlreadyRegistered t)"
    by (simp add: RegisterHandler_def)
next
  assume "\<not> distinct (map fst regs)"
  then show "\<exists>e. register_all regs [] = Inl e"
    using register_all_duplicate [of "[]" regs] by simp
next
  fix reg' t'
  assume "register_all regs [] = Inr reg'"
  from register_all_startup(1) [OF this]
  show "length (resolve reg' t') \<le> 1" by (simp add: resolve_count)
next
  fix reg' t'
  assume ok: "register_all regs [] = Inr reg'" and t': "t' \<in> set (map fst regs)"
  note d = register_all_startup(1) [OF ok] and k = register_all_startup(2) [OF ok]
  from t' k have "t' \<in> set (map fst reg')" by metis
  with d show "length (resolve reg' t') = 1" by (simp add: resolve_count)
qed

theorem RegisterHandler_unique_witness:
  "RegisterHandler ''CreateOrder'' get_order_handler [(''CreateOrder'', create_order_handler)]
     = Inl (HandlerAlreadyRegistered ''CreateOrder'')
   \<and> (\<exists>e. register_all [(''CreateOrder'', create_order_handler),
                         (''CreateOrder'', get_order_handler)] [] = Inl e)
   \<and> length (resolve [(''CreateOrder'', create_order_handler), (''GetOrder'', get_order_handler)]
              ''GetOrder'') = 1"
proof -
  have started: "register_all [(''CreateOrder'', create_order_handler),
                               (''GetOrder'', get_order_handler)] []
                   = Inr [(''CreateOrder'', create_order_handler), (''GetOrder'', get_order_handler)]"
    by (simp add: RegisterHandler_def)
  note dup = RegisterHandler_unique
               [of "''CreateOrder''" "[(''CreateOrder'', create_order_handler)]" get_order_handler
                   "[(''CreateOrder'', create_order_handler), (''CreateOrder'', get_order_handler)]"]
  note ok = RegisterHandler_unique
               [of "''CreateOrder''" "[(''CreateOrder'', create_order_handler)]" get_order_handler
                   "[(''CreateOrder'', create_order_handler), (''GetOrder'', get_order_handler)]"]
  from dup have "RegisterHandler ''CreateOrder'' get_order_handler
                   [(''CreateOrder'', create_order_handler)]
                 = Inl (HandlerAlreadyRegistered ''CreateOrder'')"
    by simp
  moreover from dup have "\<exists>e. register_all [(''CreateOrder'', create_order_handler),
                         (''CreateOrder'', get_order_handler)] [] = Inl e"
    by simp
  moreover from ok started
  have "length (resolve [(''CreateOrder'', create_order_handler), (''GetOrder'', get_order_handler)]
              ''GetOrder'') = 1"
    by simp
  ultimately show ?thesis by blast
qed

subsection \<open>Event publisher\<close>

lemma message_ids_wrap_all: "map message_id (wrap_all g es) = [g ..< g + length es]"
  by (induction es arbitrary: g) (simp_all add: wrap_def upt_rec)

lemma domain_events_wrap_all: "map domain_event (wrap_all g es) = es"
  by (induction es arbitrary: g) (simp_all add: wrap_def)

lemma send_batch_attempts: "attempts (snd (send_batch b envs)) = attempts b @ [envs]"
  by (simp add: send_batch_def split: list.splits)

lemma attempt_attempts:
  "\<exists>k. attempts (snd (attempt n envs b)) = attempts b @ replicate (Suc k) envs"
proof (induction n arbitrary: b)
  case 0
  have "attempts (snd (attempt 0 envs b)) = attempts b @ replicate (Suc 0) envs"
    by (simp add: send_batch_attempts)
  then show ?case by blast
next
  case (Suc n)
  obtain r b' where s: "send_batch b envs = (r, b')" by (cases "send_batch b envs")
  then have a: "attempts b' = attempts b @ [envs]"
    using send_batch_attempts [of b envs] by simp
  show ?case
  proof (cases r)
    case None
    with s a have "attempts (snd (attempt (Suc n) envs b)) = attempts b @ replicate (Suc 0) envs"
      by simp
    then show ?thesis by blast
  next
    case (Some err)
    from Suc.IH [of b'] obtain k where
      "attempts (snd (attempt n envs b')) = attempts b' @ replicate (Suc k) envs" by blast
    with s a Some
    have "attempts (snd (attempt (Suc n) envs b)) = attempts b @ replicate (Suc (Suc k)) envs"
      by (simp add: replicate_append_same)
    then show ?thesis by blast
  qed
qed

lemma Publish_attempts:
  assumes "Publish retries events ps = (err, ps')"
  shows "\<exists>k. attempts (the_bus ps') =
               attempts (the_bus ps) @ replicate (Suc k) (wrap_all (next_id ps) events)"
    and "next_id ps' = next_id ps + length events"
proof -
  obtain r b' where a: "attempt retries (wrap_all (next_id ps) events) (the_bus ps) = (r, b')"
    by (cases "attempt retries (wrap_all (next_id ps) events) (the_bus ps)")
  with assms have ps': "ps' = \<lparr>next_id = next_id ps + length events, the_bus = b'\<rparr>"
    by (simp add: Publish_def Let_def)
  from attempt_attempts [of retries "wrap_all (next_id ps) events" "the_bus ps"] a ps'
  show "\<exists>k. attempts (the_bus ps') =
               attempts (the_bus ps) @ replicate (Suc k) (wrap_all (next_id ps) events)"
    by simp
  from ps' show "next_id ps' = next_id ps + length events" by simp
qed

text \<open>
  C8: within one call of \<open>Publish\<close> every attempt, the first and each retry, hands
  the bus the same envelopes, so the same message ids for the batch; the ids of a call
  are pairwise distinct and differ from every id handed over by an earlier call, and
  this carries on to the calls that follow.
\<close>

theorem Publish_message_ids:
  assumes inv: "ids_below ps" and call: "Publish retries events ps = (err, ps')"
  shows "new_attempts ps ps' \<noteq> []
     \<and> (\<forall>a \<in> set (new_attempts ps ps'). \<forall>a' \<in> set (new_attempts ps ps').
           a = a' \<and> map message_id a = map message_id a')
     \<and> (\<forall>a \<in> set (new_attempts ps ps'). map domain_event a = events \<and> distinct (map message_id a))
     \<and> (\<forall>a \<in> set (new_attempts ps ps'). \<forall>old \<in> set (attempts (the_bus ps)).
           set (map message_id a) \<inter> set (map message_id old) = {})
     \<and> ids_below ps'"
proof -
  let ?envs = "wrap_all (next_id ps) events"
  from Publish_attempts [OF call] obtain k where
    att: "attempts (the_bus ps') = attempts (the_bus ps) @ replicate (Suc k) ?envs"
    and nxt: "next_id ps' = next_id ps + length events"
    by blast
  then have new: "new_attempts ps ps' = replicate (Suc k) ?envs"
    by (simp add: new_attempts_def)
  have ids: "map message_id ?envs = [next_id ps ..< next_id ps + length events]"
    by (rule message_ids_wrap_all)
  have old: "set (map message_id ?envs) \<inter> set (map message_id old) = {}"
    if "old \<in> set (attempts (the_bus ps))" for old
  proof -
    from inv that have "\<forall>env \<in> set old. message_id env < next_id ps"
      unfolding ids_below_def by blast
    then show ?thesis unfolding ids by auto
  qed
  have below: "ids_below ps'"
    unfolding ids_below_def
  proof (intro ballI)
    fix a env assume a: "a \<in> set (attempts (the_bus ps'))" and env: "env \<in> set a"
    from a att have "a \<in> set (attempts (the_bus ps)) \<or> a = ?envs" by auto
    then show "message_id env < next_id ps'"
    proof
      assume "a \<in> set (attempts (the_bus ps))"
      with inv env have "message_id env < next_id ps" unfolding ids_below_def by blast
      with nxt show ?thesis by simp
    next
      assume "a = ?envs"
      with env have "message_id env \<in> set (map message_id ?envs)" by simp
      with nxt show ?thesis unfolding ids by simp
    qed
  qed
  have "new_attempts ps ps' \<noteq> []" by (simp add: new)
  moreover have "\<forall>a \<in> set (new_attempts ps ps'). \<forall>a' \<in> set (new_attempts ps ps').
           a = a' \<and> map message_id a = map message_id a'"
    by (simp add: new)
  moreover have "\<forall>a \<in> set (new_attempts ps ps'). map domain_event a = events \<and> distinct (map message_id a)"
    by (simp add: new ids domain_events_wrap_all)
  moreover have "\<forall>a \<in> set (new_attempts ps ps'). \<forall>old \<in> set (attempts (the_bus ps)).
           set (map message_id a) \<inter> set (map message_id old) = {}"
    using old by (simp add: new)
  ultimately show ?thesis using below by blast
qed

theorem Publish_message_ids_witness:
  "new_attempts flaky_publisher (snd (Publish 2 [created7, paid7] flaky_publisher))
       = [[wrap 0 created7, wrap 1 paid7], [wrap 0 created7, wrap 1 paid7]]
   \<and> map domain_event [wrap 0 created7, wrap 1 paid7] = [created7, paid7]
   \<and> distinct (map message_id [wrap 0 created7, wrap 1 paid7])"
proof -
  have inv: "ids_below flaky_publisher"
    by (simp add: ids_below_def flaky_publisher_def)
  have call: "Publish 2 [created7, paid7] flaky_publisher =
     (None, \<lparr>next_id = 2,
             the_bus = \<lparr>accepted = [wrap 0 created7, wrap 0 created7, wrap 1 paid7], faults = [],
                        attempts = [[wrap 0 created7, wrap 1 paid7],
                                    [wrap 0 created7, wrap 1 paid7]]\<rparr>\<rparr>)"
    by (simp add: Publish_def flaky_publisher_def send_batch_def numeral_2_eq_2 Let_def)
  have new: "new_attempts flaky_publisher (snd (Publish 2 [created7, paid7] flaky_publisher))
       = [[wrap 0 created7, wrap 1 paid7], [wrap 0 created7, wrap 1 paid7]]"
  proof -
    have "attempts (the_bus flaky_publisher) = []"
      by (simp add: flaky_publisher_def)
    then show ?thesis
      by (simp add: new_attempts_def call)
  qed
  from Publish_message_ids [OF inv call]
  have "\<forall>a \<in> set (new_attempts flaky_publisher (snd (Publish 2 [created7, paid7] flaky_publisher))).
          map domain_event a = [created7, paid7] \<and> distinct (map message_id a)"
    by (simp only: call snd_conv) blast
  then have "map domain_event [wrap 0 created7, wrap 1 paid7] = [created7, paid7]
             \<and> distinct (map message_id [wrap 0 created7, wrap 1 paid7])"
    by (simp only: new) simp
  with new show ?thesis by blast
qed

end
